theory Spec2Isabelle
  imports Complex_Main
begin

section \<open>Python strings\<close>

text \<open>
  A Python \<open>str\<close> is modelled as a \<open>string\<close>: a list of characters, each a code
  point below 256. \<open>str.isspace\<close> holds, in that range, of exactly the twelve
  characters listed in \<open>whitespace\<close>.
\<close>

definition whitespace :: "char list" where
  "whitespace =
     [CHR 0x09, CHR 0x0A, CHR 0x0B, CHR 0x0C, CHR 0x0D, CHR 0x1C, CHR 0x1D, CHR 0x1E,
      CHR 0x1F, CHR 0x20, CHR 0x85, CHR 0xA0]"

definition isspace :: "char \<Rightarrow> bool" where
  "isspace c = (c \<in> set whitespace)"

text \<open>\<open>s.strip()\<close>: leading and trailing whitespace removed.\<close>

definition str_lstrip :: "string \<Rightarrow> string" where
  "str_lstrip s = dropWhile isspace s"

definition str_rstrip :: "string \<Rightarrow> string" where
  "str_rstrip s = rev (dropWhile isspace (rev s))"

definition str_strip :: "string \<Rightarrow> string" where
  "str_strip s = str_rstrip (str_lstrip s)"

text \<open>
  \<open>s.split()\<close> with no separator: the maximal runs of non-whitespace characters, in
  order. The scan keeps the word read so far in \<open>cur\<close>.
\<close>

fun split_from :: "string \<Rightarrow> string \<Rightarrow> string list" where
  "split_from cur [] = (if cur = [] then [] else [cur])"
| "split_from cur (c # cs) =
     (if isspace c then (if cur = [] then split_from [] cs else cur # split_from [] cs)
      else split_from (cur @ [c]) cs)"

definition str_split :: "string \<Rightarrow> string list" where
  "str_split s = split_from [] s"

text \<open>A token of \<open>split\<close>: not empty, and free of whitespace.\<close>

definition good_token :: "string \<Rightarrow> bool" where
  "good_token t = (t \<noteq> [] \<and> list_all (\<lambda>c. \<not> isspace c) t)"

text \<open>\<open>' '.join(words)\<close>.\<close>

fun str_join :: "string list \<Rightarrow> string" where
  "str_join [] = []"
| "str_join [w] = w"
| "str_join (w # v # ws) = w @ '' '' @ str_join (v # ws)"

section \<open>Fixed-point formatting of a float\<close>

text \<open>
  A finite float is modelled by its exact value, a rational. \<open>f"{x:.2f}"\<close> prints the
  decimal with two fractional digits nearest to that value, a tie going to the even
  neighbour, with a minus sign for a negative value.
\<close>

definition decimal_digits :: string where
  "decimal_digits = ''0123456789''"

definition digit_char :: "nat \<Rightarrow> char" where
  "digit_char d = decimal_digits ! d"

fun dec_digits :: "nat \<Rightarrow> string" where
  "dec_digits n =
     (if n < 10 then [digit_char n] else dec_digits (n div 10) @ [digit_char (n mod 10)])"

declare dec_digits.simps [simp del]

definition round_half_even :: "rat \<Rightarrow> int" where
  "round_half_even y =
     (let f = \<lfloor>y\<rfloor>; d = y - of_int f
      in if d < 1 / 2 then f else if 1 / 2 < d then f + 1 else if even f then f else f + 1)"

definition format_2f :: "rat \<Rightarrow> string" where
  "format_2f x =
     (let n = nat (round_half_even (\<bar>x\<bar> * 100))
      in (if x < 0 then ''-'' else []) @ dec_digits (n div 100) @ ''.'' @
         [digit_char (n mod 100 div 10), digit_char (n mod 10)])"

text \<open>
  The number a string of decimal digits denotes, read independently of the printing
  above: each character counts for its distance from \<open>0\<close>.
\<close>

definition digit_value :: "char \<Rightarrow> nat" where
  "digit_value c = of_char c - 48"

definition decimal_value :: "string \<Rightarrow> nat" where
  "decimal_value ds = foldl (\<lambda>acc c. 10 * acc + digit_value c) 0 ds"

section \<open>format\_transcription\<close>

text \<open>
  A chunk of the recogniser's output: its text and, when present, the pair of its start
  and end times. The transcription is the dictionary the recogniser returns; only its key
  \<open>chunks\<close> is read, so it is modelled by the value under that key, \<open>None\<close> when
  the key is absent.
\<close>

record chunk =
  chunk_text :: string
  chunk_timestamp :: "(rat \<times> rat) option"

type_synonym transcription = "chunk list option"

text \<open>The line the loop body appends to \<open>formatted_text\<close>, without its final newline.\<close>

definition chunk_line :: "chunk \<Rightarrow> string" where
  "chunk_line c =
     (case chunk_timestamp c of
        Some (start_time, end_time) \<Rightarrow>
          ''['' @ format_2f start_time @ '' - '' @ format_2f end_time @ ''] '' @
          str_strip (chunk_text c)
      | None \<Rightarrow> ''[No Timestamp] '' @ str_strip (chunk_text c))"

text \<open>
  The loop, on the state \<open>(formatted_text, full_text, previous_text)\<close>.
\<close>

fun format_loop :: "chunk list \<Rightarrow> string \<times> string \<times> string \<Rightarrow> string \<times> string \<times> string" where
  "format_loop [] st = st"
| "format_loop (c # cs) (formatted_text, full_text, previous_text) =
     (let formatted_text' = formatted_text @ chunk_line c @ ''\<newline>''
      in if str_strip (chunk_text c) \<noteq> previous_text
         then format_loop cs
                (formatted_text', full_text @ str_strip (chunk_text c) @ '' '',
                 str_strip (chunk_text c))
         else format_loop cs (formatted_text', full_text, previous_text))"

text \<open>\<open>transcription.get('chunks', [])\<close>.\<close>

definition get_chunks :: "transcription \<Rightarrow> chunk list" where
  "get_chunks tr = (case tr of None \<Rightarrow> [] | Some cs \<Rightarrow> cs)"

definition format_transcription :: "transcription \<Rightarrow> string \<times> string" where
  "format_transcription tr =
     (let (formatted_text, full_text, previous_text) = format_loop (get_chunks tr) ([], [], [])
      in (str_strip formatted_text, str_strip full_text))"

section \<open>remove\_repeated\_words\<close>

text \<open>
  The loop over \<open>enumerate(words)\<close> appends \<open>word\<close> when \<open>i == 0\<close> or
  \<open>word != words[i - 1]\<close>; the index \<open>i - 1\<close> is read only for \<open>i > 0\<close>, where it
  is in range.
\<close>

definition cleaned_words :: "string list \<Rightarrow> string list" where
  "cleaned_words words =
     map snd (filter (\<lambda>(i, word). i = 0 \<or> word \<noteq> words ! (i - 1)) (enumerate 0 words))"

definition remove_repeated_words :: "string \<Rightarrow> string" where
  "remove_repeated_words txt = str_join (cleaned_words (str_split txt))"

section \<open>The words of the specification\<close>

text \<open>
  The word deduplicator as the specification words it: scan the tokens left to right and
  keep a token unless it equals the token kept last (\<open>None\<close> before anything is kept).
\<close>

fun keep_from :: "string option \<Rightarrow> string list \<Rightarrow> string list" where
  "keep_from kept [] = []"
| "keep_from kept (t # ts) =
     (if kept = Some t then keep_from kept ts else t # keep_from (Some t) ts)"

definition dedupe_adjacent_words :: "string \<Rightarrow> string" where
  "dedupe_adjacent_words s = str_join (keep_from None (str_split s))"

text \<open>
  The contributions to the flat transcript as the specification words them: a trimmed
  text is accepted when it differs from the text accepted last, which is
  \<open>previous\<close> at the start.
\<close>

fun accepted_texts :: "string \<Rightarrow> string list \<Rightarrow> string list" where
  "accepted_texts previous [] = []"
| "accepted_texts previous (t # ts) =
     (if t \<noteq> previous then t # accepted_texts t ts else accepted_texts previous ts)"

text \<open>
  The lines of a transcript: the pieces between its newline characters
  (\<open>s.split('\n')\<close>), and no line at all for the empty transcript.
\<close>

fun split_newline :: "string \<Rightarrow> string list" where
  "split_newline [] = [[]]"
| "split_newline (c # cs) =
     (if c = CHR ''\<newline>'' then [] # split_newline cs
      else (case split_newline cs of [] \<Rightarrow> [[c]] | l # ls \<Rightarrow> (c # l) # ls))"

definition formatted_lines :: "string \<Rightarrow> string list" where
  "formatted_lines s = (if s = [] then [] else split_newline s)"

text \<open>
  A chunk whose trimmed text holds no newline character, and a chunk whose text trims to
  the empty string.
\<close>

definition newline_free :: "chunk \<Rightarrow> bool" where
  "newline_free c = (CHR ''\<newline>'' \<notin> set (str_strip (chunk_text c)))"

definition blank_chunk :: "chunk \<Rightarrow> bool" where
  "blank_chunk c = (str_strip (chunk_text c) = [])"

text \<open>The three chunks of the specification's example.\<close>

definition example_chunks :: "chunk list" where
  "example_chunks =
     [\<lparr>chunk_text = ''hello world'', chunk_timestamp = Some (0, 1)\<rparr>,
      \<lparr>chunk_text = ''hello world'', chunk_timestamp = Some (1, 2)\<rparr>,
      \<lparr>chunk_text = ''goodbye'', chunk_timestamp = Some (2, 3)\<rparr>]"

section \<open>The two pipelines of main\<close>

text \<open>
  The file system and the user interface are a state: the set of temporary files that
  exist, and the trace of what the run did. The collaborators (the temporary-file
  module, the downloader, the decoder, the recogniser) are an environment that fixes, for
  one run, what each call returns or raises. A downloader or decoder call that returns
  has populated its destination path; one that raises has created nothing.
\<close>

datatype exn = DownloadError string | OtherException string

fun exn_message :: "exn \<Rightarrow> string" where
  "exn_message (DownloadError m) = m"
| "exn_message (OtherException m) = m"

datatype 'a outcome = Returns 'a | Raises exn

datatype event =
    Created string
  | Removed string
  | Transcribed string
  | Displayed string string
  | StError string

record world =
  files :: "string set"
  events :: "event list"

record env =
  temp_file_name :: string
  write_buffer :: "unit outcome"
  ydl_download :: "string \<Rightarrow> unit outcome"
  audio_file_clip :: "string \<Rightarrow> unit outcome"
  write_audiofile :: "string \<Rightarrow> unit outcome"
  pipe :: "string \<Rightarrow> transcription outcome"

definition log_event :: "event \<Rightarrow> world \<Rightarrow> world" where
  "log_event e w = w\<lparr>events := events w @ [e]\<rparr>"

definition create_file :: "string \<Rightarrow> world \<Rightarrow> world" where
  "create_file path w = log_event (Created path) (w\<lparr>files := insert path (files w)\<rparr>)"

definition st_error :: "string \<Rightarrow> world \<Rightarrow> world" where
  "st_error msg w = log_event (StError msg) w"

text \<open>\<open>os.remove(path)\<close> raises when the file does not exist.\<close>

definition os_remove :: "string \<Rightarrow> world \<Rightarrow> unit outcome \<times> world" where
  "os_remove path w =
     (if path \<in> files w
      then (Returns (), log_event (Removed path) (w\<lparr>files := files w - {path}\<rparr>))
      else (Raises (OtherException ''FileNotFoundError''), w))"

definition download_audio_youtube ::
    "env \<Rightarrow> string \<Rightarrow> string \<Rightarrow> world \<Rightarrow> string option outcome \<times> world" where
  "download_audio_youtube en video_url output_path w =
     (case ydl_download en video_url of
        Returns u \<Rightarrow> (Returns (Some output_path), create_file output_path w)
      | Raises (DownloadError m) \<Rightarrow>
          (Returns None, st_error (''Error downloading audio from YouTube: '' @ m) w)
      | Raises (OtherException m) \<Rightarrow> (Raises (OtherException m), w))"

text \<open>
  The steps both tabs share once the audio path is known: the recogniser call, the
  formatting and the display of the two transcripts. What follows them (the clean-up)
  differs, so it stays with each tab.
\<close>

definition transcribe_and_show :: "env \<Rightarrow> string \<Rightarrow> world \<Rightarrow> unit outcome \<times> world" where
  "transcribe_and_show en path w =
     (let w1 = log_event (Transcribed path) w
      in case pipe en path of
           Raises ex \<Rightarrow> (Raises ex, w1)
         | Returns transcription \<Rightarrow>
             (let (formatted_transcription, full_transcription) =
                    format_transcription transcription
              in (Returns (),
                  log_event (Displayed formatted_transcription full_transcription) w1)))"

text \<open>
  The first tab, entered when a file is uploaded and the button is pressed. Nothing
  catches an exception here: it leaves \<open>main\<close>.
\<close>

definition tab_audio_file :: "env \<Rightarrow> bool \<Rightarrow> bool \<Rightarrow> world \<Rightarrow> unit outcome \<times> world" where
  "tab_audio_file en uploaded_file button w =
     (if uploaded_file \<and> button then
        (let temp_file_path = temp_file_name en;
             w1 = create_file temp_file_path w
         in case write_buffer en of
              Raises ex \<Rightarrow> (Raises ex, w1)
            | Returns u \<Rightarrow>
                (case transcribe_and_show en temp_file_path w1 of
                   (Raises ex, w2) \<Rightarrow> (Raises ex, w2)
                 | (Returns v, w2) \<Rightarrow> os_remove temp_file_path w2))
      else (Returns (), w))"

text \<open>The body of the \<open>try\<close> of the second tab.\<close>

definition youtube_body :: "env \<Rightarrow> string \<Rightarrow> world \<Rightarrow> unit outcome \<times> world" where
  "youtube_body en video_url w =
     (case download_audio_youtube en video_url ''temp_audio.mp4'' w of
        (Raises ex, w1) \<Rightarrow> (Raises ex, w1)
      | (Returns None, w1) \<Rightarrow> (Returns (), w1)
      | (Returns (Some audio_file), w1) \<Rightarrow>
          (if audio_file = [] then (Returns (), w1)
           else case audio_file_clip en audio_file of
                  Raises ex \<Rightarrow> (Raises ex, w1)
                | Returns u \<Rightarrow>
                    (let wav_file = ''temp_audio.wav''
                     in case write_audiofile en wav_file of
                          Raises ex \<Rightarrow> (Raises ex, w1)
                        | Returns u \<Rightarrow>
                            (case transcribe_and_show en wav_file (create_file wav_file w1) of
                               (Raises ex, w2) \<Rightarrow> (Raises ex, w2)
                             | (Returns v, w2) \<Rightarrow>
                                 (case os_remove audio_file w2 of
                                    (Raises ex, w3) \<Rightarrow> (Raises ex, w3)
                                  | (Returns v, w3) \<Rightarrow> os_remove wav_file w3)))))"

text \<open>
  The second tab, entered when a link is given and the button is pressed:
  \<open>except Exception as e: st.error(f"Error: {e}")\<close> catches whatever the body raises.
\<close>

definition tab_youtube :: "env \<Rightarrow> string \<Rightarrow> bool \<Rightarrow> world \<Rightarrow> world" where
  "tab_youtube en video_url button w =
     (if video_url \<noteq> [] \<and> button then
        (case youtube_body en video_url w of
           (Raises ex, w1) \<Rightarrow> st_error (''Error: '' @ exn_message ex) w1
         | (Returns u, w1) \<Rightarrow> w1)
      else w)"

definition main :: "env \<Rightarrow> bool \<Rightarrow> bool \<Rightarrow> string \<Rightarrow> bool \<Rightarrow> world \<Rightarrow> unit outcome \<times> world" where
  "main en uploaded_file button1 video_url button2 w =
     (case tab_audio_file en uploaded_file button1 w of
        (Raises ex, w1) \<Rightarrow> (Raises ex, w1)
      | (Returns u, w1) \<Rightarrow> (Returns (), tab_youtube en video_url button2 w1))"

text \<open>The paths a trace created, and those it created and has not removed since.\<close>

definition created_paths :: "event list \<Rightarrow> string list" where
  "created_paths es = concat (map (\<lambda>e. case e of Created p \<Rightarrow> [p] | _ \<Rightarrow> []) es)"

definition transcriber_calls :: "event list \<Rightarrow> string list" where
  "transcriber_calls es = concat (map (\<lambda>e. case e of Transcribed p \<Rightarrow> [p] | _ \<Rightarrow> []) es)"

text \<open>
  Runs to evaluate the pipelines on: a world without files, an environment in which
  every collaborator returns, one in which the recogniser raises, and one in which the
  decoder raises on opening the downloaded container.
\<close>

definition empty_world :: world where
  "empty_world = \<lparr>files = {}, events = []\<rparr>"

definition working_env :: env where
  "working_env =
     \<lparr>temp_file_name = ''/tmp/tmpk3x9'', write_buffer = Returns (),
      ydl_download = (\<lambda>url. Returns ()), audio_file_clip = (\<lambda>path. Returns ()),
      write_audiofile = (\<lambda>path. Returns ()), pipe = (\<lambda>path. Returns (Some example_chunks))\<rparr>"

definition failing_transcriber_env :: env where
  "failing_transcriber_env = working_env\<lparr>pipe := (\<lambda>path. Raises (OtherException ''corrupt audio''))\<rparr>"

definition failing_decoder_env :: env where
  "failing_decoder_env =
     working_env\<lparr>audio_file_clip := (\<lambda>path. Raises (OtherException ''could not decode''))\<rparr>"

section \<open>Adjacent duplicates\<close>

lemma remdups_adj_hd_tl: "remdups_adj (x # xs) = x # tl (remdups_adj (x # xs))"
  by (cases "remdups_adj (x # xs)") (use hd_remdups_adj [of "x # xs"] in auto)

lemma remdups_adj_twice: "remdups_adj (remdups_adj xs) = remdups_adj xs"
  using distinct_adj_altdef [of "remdups_adj xs"] by simp

lemma list_all_remdups_adj: "list_all P xs \<Longrightarrow> list_all P (remdups_adj xs)"
  by (simp add: list_all_iff)

text \<open>
  The loop of \<open>remove_repeated_words\<close> compares a word with its neighbour in
  \<open>words\<close>, not with the word kept last. Read from position \<open>Suc (length p)\<close> of
  \<open>p @ x # ys\<close>, it keeps of \<open>ys\<close> what \<open>remdups_adj\<close> keeps after \<open>x\<close>.
\<close>

lemma filter_enumerate_tail:
  "map snd (filter (\<lambda>(i, word). i = 0 \<or> word \<noteq> (p @ x # ys) ! (i - 1))
      (enumerate (Suc (length p)) ys)) = tl (remdups_adj (x # ys))"
proof (induction ys arbitrary: p x)
  case Nil
  show ?case by simp
next
  case (Cons y ys)
  have "map snd (filter (\<lambda>(i, word). i = 0 \<or> word \<noteq> ((p @ [x]) @ y # ys) ! (i - 1))
      (enumerate (Suc (length (p @ [x]))) ys)) = tl (remdups_adj (y # ys))"
    by (rule Cons.IH)
  then have rest: "map snd (filter (\<lambda>(i, word). i = 0 \<or> word \<noteq> (p @ x # y # ys) ! (i - 1))
      (enumerate (Suc (Suc (length p))) ys)) = tl (remdups_adj (y # ys))"
    by simp
  show ?case
  proof (cases "y = x")
    case True
    with rest show ?thesis by simp
  next
    case False
    with rest remdups_adj_hd_tl [of y ys] show ?thesis by simp
  qed
qed

lemma cleaned_words_remdups_adj: "cleaned_words ws = remdups_adj ws"
proof (cases ws)
  case Nil
  then show ?thesis by (simp add: cleaned_words_def)
next
  case (Cons x xs)
  have "map snd (filter (\<lambda>(i, word). i = 0 \<or> word \<noteq> ([] @ x # xs) ! (i - 1))
      (enumerate (Suc (length ([] :: string list))) xs)) = tl (remdups_adj (x # xs))"
    by (rule filter_enumerate_tail)
  with Cons remdups_adj_hd_tl [of x xs] show ?thesis
    by (simp add: cleaned_words_def)
qed

lemma keep_from_Some: "keep_from (Some x) ts = tl (remdups_adj (x # ts))"
proof (induction ts arbitrary: x)
  case Nil
  show ?case by simp
next
  case (Cons t ts)
  show ?case
    using Cons.IH [of x] Cons.IH [of t] remdups_adj_hd_tl [of t ts] by auto
qed

lemma keep_from_None: "keep_from None ts = remdups_adj ts"
  by (cases ts) (use remdups_adj_hd_tl keep_from_Some in auto)

section \<open>Splitting and joining\<close>

lemma isspace_space: "isspace (CHR '' '')"
  by (simp add: isspace_def whitespace_def)

lemma split_from_word:
  "list_all (\<lambda>c. \<not> isspace c) w \<Longrightarrow> split_from cur (w @ rest) = split_from (cur @ w) rest"
  by (induction w arbitrary: cur) auto

lemma split_from_tokens:
  "list_all (\<lambda>c. \<not> isspace c) cur \<Longrightarrow> list_all good_token (split_from cur s)"
  by (induction s arbitrary: cur) (auto simp: good_token_def)

lemma str_split_tokens: "list_all good_token (str_split s)"
  by (simp add: str_split_def split_from_tokens)

lemma str_split_join: "list_all good_token ts \<Longrightarrow> str_split (str_join ts) = ts"
proof (induction ts rule: str_join.induct)
  case 1
  show ?case by (simp add: str_split_def)
next
  case (2 w)
  then show ?case
    using split_from_word [of w "[]" "[]"] by (simp add: str_split_def good_token_def)
next
  case (3 w v ws)
  then show ?case
    using split_from_word [of w "[]" "CHR '' '' # str_join (v # ws)"]
    by (simp add: str_split_def good_token_def isspace_space)
qed

section \<open>The word deduplicator\<close>

text \<open>
  C6: \<open>remove_repeated_words\<close> splits its input on whitespace, keeps a token exactly
  when it differs from the token kept last, and joins what it kept with single spaces:
  it is the deduplicator of the specification. On \<open>the the cat sat sat down\<close> it
  returns \<open>the cat sat down\<close>.
\<close>

theorem remove_repeated_words_keeps_unless_repeated:
  "remove_repeated_words s = dedupe_adjacent_words s \<and>
   remove_repeated_words ''the the cat sat sat down'' = ''the cat sat down''"
proof
  show "remove_repeated_words s = dedupe_adjacent_words s"
    by (simp add: remove_repeated_words_def dedupe_adjacent_words_def
        cleaned_words_remdups_adj keep_from_None)
  show "remove_repeated_words ''the the cat sat sat down'' = ''the cat sat down''"
    by code_simp
qed

theorem remove_repeated_words_keeps_unless_repeated_witness:
  "remove_repeated_words ''no no  no yes no'' = dedupe_adjacent_words ''no no  no yes no''"
  by (rule conjunct1 [OF remove_repeated_words_keeps_unless_repeated [of "''no no  no yes no''"]])

text \<open>
  C7: \<open>remove_repeated_words\<close> is idempotent: applied to its own result it returns
  that result.
\<close>

theorem remove_repeated_words_idempotent:
  "remove_repeated_words (remove_repeated_words s) = remove_repeated_words s"
proof -
  have "list_all good_token (remdups_adj (str_split s))"
    by (rule list_all_remdups_adj) (rule str_split_tokens)
  then have "str_split (str_join (remdups_adj (str_split s))) = remdups_adj (str_split s)"
    by (rule str_split_join)
  then show ?thesis
    by (simp add: remove_repeated_words_def cleaned_words_remdups_adj remdups_adj_twice)
qed

theorem remove_repeated_words_idempotent_witness:
  "remove_repeated_words (remove_repeated_words ''the the cat'') = ''the cat''"
proof -
  have once: "remove_repeated_words ''the the cat'' = ''the cat''"
    by code_simp
  show ?thesis
    by (rule trans [OF remove_repeated_words_idempotent [of "''the the cat''"] once])
qed

section \<open>The loop of format\_transcription\<close>

lemma isspace_newline: "isspace (CHR ''\<newline>'')"
  by (simp add: isspace_def whitespace_def)

lemma not_isspace_bracket: "\<not> isspace (CHR ''['')"
  by (simp add: isspace_def whitespace_def)

lemma format_loop_formatted:
  "fst (format_loop cs (f, t, p)) = f @ concat (map (\<lambda>c. chunk_line c @ ''\<newline>'') cs)"
  by (induction cs arbitrary: f t p) (simp_all add: Let_def)

lemma format_loop_full:
  "fst (snd (format_loop cs (f, t, p))) =
     t @ concat (map (\<lambda>x. x @ '' '') (accepted_texts p (map (\<lambda>c. str_strip (chunk_text c)) cs)))"
  by (induction cs arbitrary: f t p) (simp_all add: Let_def)

lemma format_transcription_eq:
  "format_transcription tr =
     (str_strip (concat (map (\<lambda>c. chunk_line c @ ''\<newline>'') (get_chunks tr))),
      str_strip (concat (map (\<lambda>x. x @ '' '')
        (accepted_texts [] (map (\<lambda>c. str_strip (chunk_text c)) (get_chunks tr))))))"
  using format_loop_formatted [of "get_chunks tr" "[]" "[]" "[]"]
    format_loop_full [of "get_chunks tr" "[]" "[]" "[]"]
  by (auto simp: format_transcription_def split: prod.splits)

lemma accepted_texts_remdups_adj: "accepted_texts p ts = tl (remdups_adj (p # ts))"
proof (induction ts arbitrary: p)
  case Nil
  show ?case by simp
next
  case (Cons t ts)
  show ?case
    using Cons.IH [of p] Cons.IH [of t] remdups_adj_hd_tl [of t ts] by auto
qed

lemma distinct_adj_accepted_texts: "distinct_adj (accepted_texts p ts)"
proof -
  have "distinct_adj (remdups_adj (p # ts))" by simp
  then have "distinct_adj (p # accepted_texts p ts)"
    using remdups_adj_hd_tl [of p ts] by (simp add: accepted_texts_remdups_adj)
  then show ?thesis by (rule distinct_adj_ConsD)
qed

text \<open>
  C3: the flat transcript is the trimmed join of the accepted texts, each followed by one
  space; a trimmed text is accepted only when it differs from the text accepted before
  it, so no two consecutive contributions are equal; with the empty string in front, the
  accepted texts are the trimmed texts with their adjacent duplicates removed.
\<close>

theorem flat_transcript_no_adjacent_duplicates:
  "snd (format_transcription tr) =
     str_strip (concat (map (\<lambda>t. t @ '' '')
       (accepted_texts [] (map (\<lambda>c. str_strip (chunk_text c)) (get_chunks tr)))))
   \<and> distinct_adj (accepted_texts [] (map (\<lambda>c. str_strip (chunk_text c)) (get_chunks tr)))
   \<and> [] # accepted_texts [] (map (\<lambda>c. str_strip (chunk_text c)) (get_chunks tr)) =
       remdups_adj ([] # map (\<lambda>c. str_strip (chunk_text c)) (get_chunks tr))"
proof (intro conjI)
  show "snd (format_transcription tr) =
     str_strip (concat (map (\<lambda>t. t @ '' '')
       (accepted_texts [] (map (\<lambda>c. str_strip (chunk_text c)) (get_chunks tr)))))"
    by (simp add: format_transcription_eq)
  show "distinct_adj (accepted_texts [] (map (\<lambda>c. str_strip (chunk_text c)) (get_chunks tr)))"
    by (rule distinct_adj_accepted_texts)
  show "[] # accepted_texts [] (map (\<lambda>c. str_strip (chunk_text c)) (get_chunks tr)) =
       remdups_adj ([] # map (\<lambda>c. str_strip (chunk_text c)) (get_chunks tr))"
    using remdups_adj_hd_tl [of "[]" "map (\<lambda>c. str_strip (chunk_text c)) (get_chunks tr)"]
    by (simp add: accepted_texts_remdups_adj)
qed

theorem flat_transcript_no_adjacent_duplicates_witness:
  "snd (format_transcription (Some example_chunks)) = ''hello world goodbye''"
proof -
  have "str_strip (concat (map (\<lambda>t. t @ '' '')
       (accepted_texts [] (map (\<lambda>c. str_strip (chunk_text c))
         (get_chunks (Some example_chunks)))))) = ''hello world goodbye''"
    by code_simp
  with conjunct1 [OF flat_transcript_no_adjacent_duplicates [of "Some example_chunks"]]
  show ?thesis by (rule trans)
qed

section \<open>The lines of the formatted transcript\<close>

lemma str_rstrip_append:
  assumes "x \<in> set ys" and "\<not> isspace x"
  shows "str_rstrip (xs @ ys) = xs @ str_rstrip ys"
proof -
  from assms have "dropWhile isspace (rev ys @ rev xs) = dropWhile isspace (rev ys) @ rev xs"
    by (intro dropWhile_append1 [of x]) simp_all
  then show ?thesis by (simp add: str_rstrip_def)
qed

lemma str_rstrip_snoc: "isspace c \<Longrightarrow> str_rstrip (xs @ [c]) = str_rstrip xs"
  by (simp add: str_rstrip_def)

lemma set_str_rstrip: "set (str_rstrip s) \<subseteq> set s"
  using set_dropWhileD [of _ isspace "rev s"] by (auto simp: str_rstrip_def)

lemma chunk_line_bracket: "\<exists>r. chunk_line c = CHR ''['' # r"
  by (simp add: chunk_line_def split: option.split prod.split)

lemma str_strip_bracket: "str_strip (CHR ''['' # r) = str_rstrip (CHR ''['' # r)"
  by (simp add: str_strip_def str_lstrip_def not_isspace_bracket)

lemma str_strip_chunk_line: "str_strip (chunk_line c) = str_rstrip (chunk_line c)"
  using chunk_line_bracket [of c] by (auto simp: str_strip_bracket)

lemma chunk_line_not_blank: "\<exists>x\<in>set (chunk_line c). \<not> isspace x"
  using chunk_line_bracket [of c] not_isspace_bracket by auto

lemma str_strip_formatted:
  "str_strip (concat (map (\<lambda>c. chunk_line c @ ''\<newline>'') (cs @ [c]))) =
     concat (map (\<lambda>c. chunk_line c @ ''\<newline>'') cs) @ str_rstrip (chunk_line c)"
proof -
  let ?A = "concat (map (\<lambda>c. chunk_line c @ ''\<newline>'') cs)"
  let ?raw = "concat (map (\<lambda>c. chunk_line c @ ''\<newline>'') (cs @ [c]))"
  have raw: "?raw = (?A @ chunk_line c) @ ''\<newline>''" by simp
  obtain r where r: "?raw = CHR ''['' # r"
  proof (cases cs)
    case Nil
    with chunk_line_bracket [of c] that show ?thesis by auto
  next
    case (Cons d ds)
    with chunk_line_bracket [of d] that show ?thesis by auto
  qed
  have "str_strip ?raw = str_rstrip ?raw"
    unfolding r by (rule str_strip_bracket)
  also have "\<dots> = str_rstrip (?A @ chunk_line c)"
    unfolding raw by (rule str_rstrip_snoc) (rule isspace_newline)
  also have "\<dots> = ?A @ str_rstrip (chunk_line c)"
    using chunk_line_not_blank [of c] by (auto intro: str_rstrip_append)
  finally show ?thesis .
qed

lemma split_newline_line:
  "CHR ''\<newline>'' \<notin> set l \<Longrightarrow> split_newline (l @ CHR ''\<newline>'' # rest) = l # split_newline rest"
  by (induction l) auto

lemma split_newline_single: "CHR ''\<newline>'' \<notin> set l \<Longrightarrow> split_newline l = [l]"
  by (induction l) auto

lemma split_newline_lines:
  "list_all (\<lambda>l. CHR ''\<newline>'' \<notin> set l) ls \<Longrightarrow> CHR ''\<newline>'' \<notin> set z \<Longrightarrow>
     split_newline (concat (map (\<lambda>l. l @ ''\<newline>'') ls) @ z) = ls @ [z]"
  by (induction ls) (simp_all add: split_newline_single split_newline_line)

lemma digit_char_digit: "d < 10 \<Longrightarrow> digit_char d \<in> set decimal_digits"
  unfolding digit_char_def by (rule nth_mem) (simp add: decimal_digits_def)

lemma dec_digits_digits: "set (dec_digits n) \<subseteq> set decimal_digits"
proof (induction n rule: dec_digits.induct)
  case (1 n)
  show ?case
  proof (cases "n < 10")
    case True
    with digit_char_digit [of n] show ?thesis
      by (subst dec_digits.simps) simp
  next
    case False
    with 1 digit_char_digit [of "n mod 10"] show ?thesis
      by (subst dec_digits.simps) simp
  qed
qed

lemma newline_not_digit: "CHR ''\<newline>'' \<notin> set decimal_digits"
  by (simp add: decimal_digits_def)

lemma format_2f_no_newline: "CHR ''\<newline>'' \<notin> set (format_2f x)"
proof -
  let ?n = "nat (round_half_even (\<bar>x\<bar> * 100))"
  have "digit_char (?n mod 100 div 10) \<in> set decimal_digits"
    by (rule digit_char_digit) simp
  moreover have "digit_char (?n mod 10) \<in> set decimal_digits"
    by (rule digit_char_digit) simp
  ultimately show ?thesis
    using dec_digits_digits [of "?n div 100"] newline_not_digit
    by (auto simp: format_2f_def Let_def)
qed

lemma chunk_line_no_newline:
  "CHR ''\<newline>'' \<notin> set (str_strip (chunk_text c)) \<Longrightarrow> CHR ''\<newline>'' \<notin> set (chunk_line c)"
  by (auto simp: chunk_line_def format_2f_no_newline split: option.split)

text \<open>
  C2, as the code has it: when no chunk's trimmed text holds a newline character, the
  formatted transcript has exactly one line per chunk, in chunk order, whether the chunk
  has a timestamp or not: the lines are the chunks' lines, the last one without its
  trailing whitespace.
\<close>

theorem formatted_lines_one_per_chunk:
  assumes "list_all newline_free (get_chunks tr)"
  shows "length (formatted_lines (fst (format_transcription tr))) = length (get_chunks tr) \<and>
    formatted_lines (fst (format_transcription tr)) =
      (map chunk_line (get_chunks tr))
        [length (get_chunks tr) - 1 := str_strip (chunk_line (last (get_chunks tr)))]"
proof (cases "get_chunks tr" rule: rev_cases)
  case Nil
  then show ?thesis
    by (simp add: format_transcription_eq formatted_lines_def str_strip_def str_rstrip_def
        str_lstrip_def)
next
  case (snoc cs c)
  let ?A = "concat (map (\<lambda>c. chunk_line c @ ''\<newline>'') cs)"
  have formatted: "fst (format_transcription tr) = ?A @ str_rstrip (chunk_line c)"
    using str_strip_formatted [of cs c] by (simp add: format_transcription_eq snoc)
  have nonempty: "str_rstrip (chunk_line c) \<noteq> []"
    using chunk_line_not_blank [of c] by (auto simp: str_rstrip_def)
  from assms snoc have free: "list_all (\<lambda>l. CHR ''\<newline>'' \<notin> set l) (map chunk_line cs)"
    and free_c: "CHR ''\<newline>'' \<notin> set (chunk_line c)"
    by (auto simp: list_all_iff newline_free_def chunk_line_no_newline)
  from free_c have last_free: "CHR ''\<newline>'' \<notin> set (str_rstrip (chunk_line c))"
    using set_str_rstrip [of "chunk_line c"] by auto
  have "split_newline (concat (map (\<lambda>l. l @ ''\<newline>'') (map chunk_line cs)) @
      str_rstrip (chunk_line c)) = map chunk_line cs @ [str_rstrip (chunk_line c)]"
    using free last_free by (rule split_newline_lines)
  then have lines: "formatted_lines (fst (format_transcription tr)) =
      map chunk_line cs @ [str_strip (chunk_line c)]"
    using nonempty by (simp add: formatted formatted_lines_def str_strip_chunk_line comp_def)
  have "(map chunk_line (cs @ [c]))[length (cs @ [c]) - 1 := str_strip (chunk_line (last (cs @ [c])))]
      = map chunk_line cs @ [str_strip (chunk_line c)]"
    using list_update_length [of "map chunk_line cs" "chunk_line c" "[]" "str_strip (chunk_line c)"]
    by simp
  with lines snoc show ?thesis by simp
qed


theorem formatted_lines_one_per_chunk_witness:
  "list_all newline_free
     (get_chunks (Some (\<lparr>chunk_text = '' '', chunk_timestamp = None\<rparr> # example_chunks))) \<and>
   length (formatted_lines (fst (format_transcription
     (Some (\<lparr>chunk_text = '' '', chunk_timestamp = None\<rparr> # example_chunks))))) =
   length (get_chunks (Some (\<lparr>chunk_text = '' '', chunk_timestamp = None\<rparr> # example_chunks)))"
proof -
  have h: "list_all newline_free
     (get_chunks (Some (\<lparr>chunk_text = '' '', chunk_timestamp = None\<rparr> # example_chunks)))"
    by code_simp
  show ?thesis
    by (rule conjI [OF h conjunct1 [OF formatted_lines_one_per_chunk [OF h]]])
qed

text \<open>
  C2, as the claim states it, fails on a chunk whose text holds a newline between two
  words: one chunk, two lines.
\<close>

theorem formatted_lines_one_per_chunk_counterexample:
  "length (formatted_lines (fst (format_transcription
     (Some [\<lparr>chunk_text = ''a\<newline>b'', chunk_timestamp = None\<rparr>])))) \<noteq>
   length (get_chunks (Some [\<lparr>chunk_text = ''a\<newline>b'', chunk_timestamp = None\<rparr>]))"
  by code_simp

section \<open>The format of a line\<close>

lemma round_half_even_near:
  "\<bar>y - of_int (round_half_even y)\<bar> \<le> 1 / 2"
proof -
  have "of_int \<lfloor>y\<rfloor> \<le> y" and "y < of_int \<lfloor>y\<rfloor> + 1"
    by linarith+
  then show ?thesis
    by (auto simp: round_half_even_def Let_def)
qed

lemma hundredth_near:
  fixes a m :: rat
  assumes "\<bar>a * 100 - m\<bar> \<le> 1 / 2"
  shows "\<bar>a - m / 100\<bar> \<le> 1 / 200"
proof -
  have "a - m / 100 = (a * 100 - m) / 100" by simp
  then have "\<bar>a - m / 100\<bar> = \<bar>a * 100 - m\<bar> / \<bar>100\<bar>"
    by (simp only: abs_divide)
  with assms show ?thesis by simp
qed

lemma round_half_even_nonneg: "0 \<le> y \<Longrightarrow> 0 \<le> round_half_even y"
  by (auto simp: round_half_even_def Let_def)

lemma digit_value_digit_char: "d < 10 \<Longrightarrow> digit_value (digit_char d) = d"
proof -
  assume "d < 10"
  then have "d = 0 \<or> d = 1 \<or> d = 2 \<or> d = 3 \<or> d = 4 \<or> d = 5 \<or> d = 6 \<or> d = 7 \<or> d = 8 \<or> d = 9"
    by arith
  then show ?thesis
    by (elim disjE) (simp_all add: digit_value_def digit_char_def decimal_digits_def)
qed

lemma decimal_value_snoc: "decimal_value (ds @ [c]) = 10 * decimal_value ds + digit_value c"
  by (simp add: decimal_value_def)

lemma decimal_value_dec_digits: "decimal_value (dec_digits n) = n"
proof (induction n rule: dec_digits.induct)
  case (1 n)
  show ?case
  proof (cases "n < 10")
    case True
    then have "dec_digits n = [digit_char n]" by (subst dec_digits.simps) simp
    with True show ?thesis
      using decimal_value_snoc [of "[]" "digit_char n"]
      by (simp add: digit_value_digit_char decimal_value_def)
  next
    case False
    then have "dec_digits n = dec_digits (n div 10) @ [digit_char (n mod 10)]"
      by (subst dec_digits.simps) simp
    with False 1 show ?thesis
      by (simp add: decimal_value_snoc digit_value_digit_char)
  qed
qed

lemma dec_digits_nonempty: "dec_digits n \<noteq> []"
  by (subst dec_digits.simps) simp

lemma dec_digits_zero: "dec_digits 0 = ''0''"
  by (subst dec_digits.simps) (simp add: digit_char_def decimal_digits_def)

lemma dec_digits_leading: "n \<noteq> 0 \<Longrightarrow> hd (dec_digits n) \<noteq> CHR ''0''"
proof (induction n rule: dec_digits.induct)
  case (1 n)
  show ?case
  proof (cases "n < 10")
    case True
    then have d: "dec_digits n = [digit_char n]" by (subst dec_digits.simps) simp
    have "digit_value (digit_char n) = n" using True by (rule digit_value_digit_char)
    moreover have "digit_value (CHR ''0'') = 0" by (simp add: digit_value_def)
    ultimately have "digit_char n \<noteq> CHR ''0''" using "1.prems" by auto
    with d show ?thesis by simp
  next
    case False
    then have d: "dec_digits n = dec_digits (n div 10) @ [digit_char (n mod 10)]"
      by (subst dec_digits.simps) simp
    from False have "n div 10 \<noteq> 0" by simp
    with False 1 have "hd (dec_digits (n div 10)) \<noteq> CHR ''0''" by simp
    with d dec_digits_nonempty [of "n div 10"] show ?thesis by simp
  qed
qed

lemma dec_digits_canonical: "dec_digits n = ''0'' \<or> hd (dec_digits n) \<noteq> CHR ''0''"
  using dec_digits_zero dec_digits_leading [of n] by (cases "n = 0") auto

lemma two_digits_value:
  "decimal_value [digit_char (n mod 100 div 10), digit_char (n mod 10)] = n mod 100"
proof -
  have "digit_value (digit_char (n mod 100 div 10)) = n mod 100 div 10"
    by (rule digit_value_digit_char) simp
  moreover have "digit_value (digit_char (n mod 10)) = n mod 10"
    by (rule digit_value_digit_char) simp
  moreover have "n mod 10 = n mod 100 mod 10"
    by (simp add: mod_mod_cancel)
  ultimately show ?thesis
    by (simp add: decimal_value_def)
qed

lemma split_hundred:
  "(of_nat n :: rat) / 100 = of_nat (n div 100) + of_nat (n mod 100) / 100"
proof -
  have "(of_nat n :: rat) = of_nat (100 * (n div 100) + n mod 100)"
    by (simp only: mult_div_mod_eq)
  also have "\<dots> = 100 * of_nat (n div 100) + of_nat (n mod 100)"
    by (simp only: of_nat_add of_nat_mult of_nat_numeral)
  finally have "(of_nat n :: rat) / 100 =
      (100 * of_nat (n div 100) + of_nat (n mod 100)) / 100"
    by (simp only:)
  then show ?thesis by (simp add: add_divide_distrib)
qed

lemma format_2f_decimal:
  "\<exists>ip f1 f2.
     format_2f x = (if x < 0 then ''-'' else []) @ ip @ ''.'' @ [f1, f2] \<and>
     set (ip @ [f1, f2]) \<subseteq> set decimal_digits \<and>
     (ip = ''0'' \<or> hd ip \<noteq> CHR ''0'') \<and> ip \<noteq> [] \<and>
     \<bar>\<bar>x\<bar> - (of_nat (decimal_value ip) + of_nat (decimal_value [f1, f2]) / 100)\<bar> \<le> 1 / 200"
proof -
  let ?r = "round_half_even (\<bar>x\<bar> * 100)"
  let ?n = "nat ?r"
  let ?ip = "dec_digits (?n div 100)"
  let ?f1 = "digit_char (?n mod 100 div 10)"
  let ?f2 = "digit_char (?n mod 10)"
  have shape: "format_2f x = (if x < 0 then ''-'' else []) @ ?ip @ ''.'' @ [?f1, ?f2]"
    by (simp add: format_2f_def Let_def)
  have "?f1 \<in> set decimal_digits" by (rule digit_char_digit) simp
  moreover have "?f2 \<in> set decimal_digits" by (rule digit_char_digit) simp
  ultimately have digits: "set (?ip @ [?f1, ?f2]) \<subseteq> set decimal_digits"
    using dec_digits_digits [of "?n div 100"] by simp
  have "0 \<le> ?r" by (rule round_half_even_nonneg) simp
  then have "of_nat ?n = (of_int ?r :: rat)" by simp
  moreover have "\<bar>\<bar>x\<bar> * 100 - of_int ?r\<bar> \<le> 1 / 2" by (rule round_half_even_near)
  ultimately have "\<bar>\<bar>x\<bar> * 100 - of_nat ?n\<bar> \<le> 1 / 2" by (simp only:)
  then have near: "\<bar>\<bar>x\<bar> - of_nat ?n / 100\<bar> \<le> 1 / 200" by (rule hundredth_near)
  have "(of_nat ?n :: rat) / 100 = of_nat (?n div 100) + of_nat (?n mod 100) / 100"
    by (rule split_hundred)
  with near have val: "\<bar>\<bar>x\<bar> - (of_nat (decimal_value ?ip) +
      of_nat (decimal_value [?f1, ?f2]) / 100)\<bar> \<le> 1 / 200"
    by (simp only: decimal_value_dec_digits two_digits_value)
  from shape digits dec_digits_canonical [of "?n div 100"] dec_digits_nonempty [of "?n div 100"] val
  show ?thesis by blast
qed


lemma round_half_even_of_nat: "round_half_even (of_nat n) = int n"
  by (simp add: round_half_even_def)

lemma format_2f_hundredths:
  "format_2f (of_nat n / 100) =
     dec_digits (n div 100) @ ''.'' @ [digit_char (n mod 100 div 10), digit_char (n mod 10)]"
proof -
  have "\<bar>(of_nat n :: rat) / 100\<bar> * 100 = of_nat n" by simp
  then have "nat (round_half_even (\<bar>(of_nat n :: rat) / 100\<bar> * 100)) = n"
    by (simp only: round_half_even_of_nat nat_int)
  moreover have "\<not> (of_nat n :: rat) / 100 < 0" by simp
  ultimately show ?thesis
    unfolding format_2f_def Let_def by (simp only: if_False append_Nil)
qed

lemma format_2f_examples:
  "format_2f (25 / 2) = ''12.50''" "format_2f 61 = ''61.00''"
  "format_2f (21 / 2) = ''10.50''" "format_2f (245 / 4) = ''61.25''"
  "format_2f (61728 / 50) = ''1234.56''"
  using format_2f_hundredths [of 1250] format_2f_hundredths [of 6100]
    format_2f_hundredths [of 1050] format_2f_hundredths [of 6125]
    format_2f_hundredths [of 123456]
  by (simp_all add: dec_digits.simps digit_char_def decimal_digits_def)

lemmas strip_defs = str_strip_def str_lstrip_def str_rstrip_def isspace_def whitespace_def

text \<open>
  C8: the formatted transcript is the trimmed concatenation of one line per chunk, each
  ended by a newline: \<open>[start - end] text\<close> for a timestamped chunk and
  \<open>[No Timestamp] text\<close> for a chunk without timestamp, the text trimmed. A time is
  printed as an optional minus sign, an integer part in decimal digits without a
  leading zero (a single \<open>0\<close> for zero), a point and two decimal digits; the number
  these digits denote is within half a hundredth of the time. A tie goes to the even
  hundredth. On the three chunks of the example the two transcripts are the ones the
  specification gives.
\<close>

theorem format_transcription_line_format:
  "fst (format_transcription tr) =
     str_strip (concat (map
       (\<lambda>c. (case chunk_timestamp c of
               Some (a, b) \<Rightarrow>
                 ''['' @ format_2f a @ '' - '' @ format_2f b @ ''] '' @ str_strip (chunk_text c)
             | None \<Rightarrow> ''[No Timestamp] '' @ str_strip (chunk_text c)) @ ''\<newline>'')
       (get_chunks tr)))
   \<and> (\<exists>ip f1 f2.
         format_2f x = (if x < 0 then ''-'' else []) @ ip @ ''.'' @ [f1, f2] \<and>
         set (ip @ [f1, f2]) \<subseteq> set ''0123456789'' \<and>
         (ip = ''0'' \<or> hd ip \<noteq> CHR ''0'') \<and> ip \<noteq> [] \<and>
         \<bar>\<bar>x\<bar> - (of_nat (decimal_value ip) + of_nat (decimal_value [f1, f2]) / 100)\<bar>
           \<le> 1 / 200)
   \<and> format_2f (25 / 2) = ''12.50'' \<and> format_2f (1 / 8) = ''0.12''
   \<and> format_2f (3 / 8) = ''0.38'' \<and> format_2f (61728 / 50) = ''1234.56''
   \<and> format_2f (- 5 / 4) = ''-1.25''
   \<and> format_transcription (Some example_chunks) =
       (''[0.00 - 1.00] hello world\<newline>[1.00 - 2.00] hello world\<newline>[2.00 - 3.00] goodbye'',
        ''hello world goodbye'')
   \<and> fst (format_transcription (Some [\<lparr>chunk_text = ''test'', chunk_timestamp = None\<rparr>])) =
       ''[No Timestamp] test''
   \<and> fst (format_transcription
        (Some [\<lparr>chunk_text = '' far on '', chunk_timestamp = Some (25 / 2, 61)\<rparr>])) =
       ''[12.50 - 61.00] far on''"
proof (intro conjI)
  have "(\<lambda>c. (case chunk_timestamp c of
               Some (a, b) \<Rightarrow>
                 ''['' @ format_2f a @ '' - '' @ format_2f b @ ''] '' @ str_strip (chunk_text c)
             | None \<Rightarrow> ''[No Timestamp] '' @ str_strip (chunk_text c)) @ ''\<newline>'') =
        (\<lambda>c. chunk_line c @ ''\<newline>'')"
    by (rule ext) (simp add: chunk_line_def)
  then show "fst (format_transcription tr) =
     str_strip (concat (map
       (\<lambda>c. (case chunk_timestamp c of
               Some (a, b) \<Rightarrow>
                 ''['' @ format_2f a @ '' - '' @ format_2f b @ ''] '' @ str_strip (chunk_text c)
             | None \<Rightarrow> ''[No Timestamp] '' @ str_strip (chunk_text c)) @ ''\<newline>'')
       (get_chunks tr)))"
    by (simp only: format_transcription_eq fst_conv)
  show "\<exists>ip f1 f2.
         format_2f x = (if x < 0 then ''-'' else []) @ ip @ ''.'' @ [f1, f2] \<and>
         set (ip @ [f1, f2]) \<subseteq> set ''0123456789'' \<and>
         (ip = ''0'' \<or> hd ip \<noteq> CHR ''0'') \<and> ip \<noteq> [] \<and>
         \<bar>\<bar>x\<bar> - (of_nat (decimal_value ip) + of_nat (decimal_value [f1, f2]) / 100)\<bar>
           \<le> 1 / 200"
    using format_2f_decimal [of x] unfolding decimal_digits_def .
  show "format_2f (25 / 2) = ''12.50''" by (rule format_2f_examples)
  show "format_2f (1 / 8) = ''0.12''" by code_simp
  show "format_2f (3 / 8) = ''0.38''" by code_simp
  show "format_2f (61728 / 50) = ''1234.56''" by (rule format_2f_examples)
  show "format_2f (- 5 / 4) = ''-1.25''" by code_simp
  show "format_transcription (Some example_chunks) =
       (''[0.00 - 1.00] hello world\<newline>[1.00 - 2.00] hello world\<newline>[2.00 - 3.00] goodbye'',
        ''hello world goodbye'')"
    by code_simp
  show "fst (format_transcription (Some [\<lparr>chunk_text = ''test'', chunk_timestamp = None\<rparr>])) =
       ''[No Timestamp] test''"
    by code_simp
  show "fst (format_transcription
        (Some [\<lparr>chunk_text = '' far on '', chunk_timestamp = Some (25 / 2, 61)\<rparr>])) =
       ''[12.50 - 61.00] far on''"
    by (simp add: format_transcription_eq get_chunks_def chunk_line_def format_2f_examples
        strip_defs)
qed

theorem format_transcription_line_format_witness:
  "fst (format_transcription
     (Some [\<lparr>chunk_text = '' hi there '', chunk_timestamp = Some (21 / 2, 245 / 4)\<rparr>,
            \<lparr>chunk_text = ''bye'', chunk_timestamp = None\<rparr>])) =
   ''[10.50 - 61.25] hi there\<newline>[No Timestamp] bye''"
proof -
  have "str_strip (concat (map
       (\<lambda>c. (case chunk_timestamp c of
               Some (a, b) \<Rightarrow>
                 ''['' @ format_2f a @ '' - '' @ format_2f b @ ''] '' @ str_strip (chunk_text c)
             | None \<Rightarrow> ''[No Timestamp] '' @ str_strip (chunk_text c)) @ ''\<newline>'')
       (get_chunks
         (Some [\<lparr>chunk_text = '' hi there '', chunk_timestamp = Some (21 / 2, 245 / 4)\<rparr>,
                \<lparr>chunk_text = ''bye'', chunk_timestamp = None\<rparr>])))) =
     ''[10.50 - 61.25] hi there\<newline>[No Timestamp] bye''"
    by (simp add: get_chunks_def format_2f_examples strip_defs)
  with conjunct1 [OF format_transcription_line_format
      [of "Some [\<lparr>chunk_text = '' hi there '', chunk_timestamp = Some (21 / 2, 245 / 4)\<rparr>,
                 \<lparr>chunk_text = ''bye'', chunk_timestamp = None\<rparr>]"]]
  show ?thesis by (rule trans)
qed

text \<open>
  C9: for the empty chunk sequence, and for a transcription without the key
  \<open>chunks\<close>, both transcripts are the empty string.
\<close>

theorem format_transcription_empty: "format_transcription (Some []) = ([], []) \<and> format_transcription None = ([], [])"
  by (simp add: format_transcription_def get_chunks_def str_strip_def str_lstrip_def
      str_rstrip_def)

section \<open>Leading blank chunks\<close>

lemma accepted_texts_skip:
  "list_all (\<lambda>t. t = p) ts \<Longrightarrow> accepted_texts p (ts @ us) = accepted_texts p us"
  by (induction ts) simp_all

lemma split_newline_prefix:
  "list_all (\<lambda>l. CHR ''\<newline>'' \<notin> set l) ls \<Longrightarrow>
     split_newline (concat (map (\<lambda>l. l @ ''\<newline>'') ls) @ z) = ls @ split_newline z"
  by (induction ls) (simp_all add: split_newline_line)

lemma split_newline_nonempty: "split_newline z \<noteq> []"
  by (cases z) (auto split: list.splits)

lemma str_rstrip_idem: "str_rstrip (str_rstrip s) = str_rstrip s"
  by (simp add: str_rstrip_def)

lemma str_rstrip_tag: "str_rstrip (xs @ ''] '') = xs @ '']''"
proof -
  have "str_rstrip ((xs @ '']'') @ '' '') = str_rstrip (xs @ '']'')"
    by (rule str_rstrip_snoc) (rule isspace_space)
  also have "\<dots> = xs @ str_rstrip '']''"
    by (rule str_rstrip_append [of "CHR '']''"]) (simp_all add: isspace_def whitespace_def)
  also have "str_rstrip '']'' = '']''"
    by (simp add: str_rstrip_def isspace_def whitespace_def)
  finally show ?thesis by simp
qed

lemma blank_chunk_line:
  assumes "blank_chunk c"
  shows "str_rstrip (chunk_line c) =
     (case chunk_timestamp c of
        Some (a, b) \<Rightarrow> ''['' @ format_2f a @ '' - '' @ format_2f b @ '']''
      | None \<Rightarrow> ''[No Timestamp]'')"
proof (cases "chunk_timestamp c")
  case None
  with assms str_rstrip_tag [of "''[No Timestamp''"] show ?thesis
    by (simp add: chunk_line_def blank_chunk_def)
next
  case (Some ab)
  obtain a b where "ab = (a, b)" by (cases ab)
  with Some assms str_rstrip_tag [of "''['' @ format_2f a @ '' - '' @ format_2f b"]
  show ?thesis
    by (simp add: chunk_line_def blank_chunk_def)
qed

lemma blank_chunk_newline_free: "blank_chunk c \<Longrightarrow> CHR ''\<newline>'' \<notin> set (chunk_line c)"
  by (rule chunk_line_no_newline) (simp add: blank_chunk_def)

lemma blank_lines:
  assumes "list_all blank_chunk pre"
  shows "length pre \<le> length (formatted_lines (fst (format_transcription (Some (pre @ cs))))) \<and>
    map str_rstrip (take (length pre)
        (formatted_lines (fst (format_transcription (Some (pre @ cs)))))) =
      map (\<lambda>c. str_rstrip (chunk_line c)) pre"
proof (cases "pre = []")
  case True
  then show ?thesis by simp
next
  case False
  let ?F = "fst (format_transcription (Some (pre @ cs)))"
  from assms have free: "list_all (\<lambda>l. CHR ''\<newline>'' \<notin> set l) (map chunk_line pre)"
    by (simp add: list_all_iff blank_chunk_newline_free)
  show ?thesis
  proof (cases cs rule: rev_cases)
    case Nil
    from False obtain ps c where pre: "pre = ps @ [c]" by (cases pre rule: rev_cases) auto
    have F: "?F = concat (map (\<lambda>l. l @ ''\<newline>'') (map chunk_line ps)) @ str_rstrip (chunk_line c)"
      using str_strip_formatted [of ps c]
      by (simp add: format_transcription_eq get_chunks_def Nil pre comp_def)
    have nonempty: "str_rstrip (chunk_line c) \<noteq> []"
      using chunk_line_not_blank [of c] by (auto simp: str_rstrip_def)
    from free pre have free_ps: "list_all (\<lambda>l. CHR ''\<newline>'' \<notin> set l) (map chunk_line ps)"
      and "CHR ''\<newline>'' \<notin> set (chunk_line c)"
      by simp_all
    then have "CHR ''\<newline>'' \<notin> set (str_rstrip (chunk_line c))"
      using set_str_rstrip [of "chunk_line c"] by auto
    with free_ps have "split_newline ?F = map chunk_line ps @ [str_rstrip (chunk_line c)]"
      unfolding F by (rule split_newline_lines)
    with nonempty F have "formatted_lines ?F = map chunk_line ps @ [str_rstrip (chunk_line c)]"
      by (simp add: formatted_lines_def)
    then show ?thesis by (simp add: pre str_rstrip_idem)
  next
    case (snoc ds d)
    let ?z = "concat (map (\<lambda>c. chunk_line c @ ''\<newline>'') ds) @ str_rstrip (chunk_line d)"
    have F: "?F = concat (map (\<lambda>l. l @ ''\<newline>'') (map chunk_line pre)) @ ?z"
      using str_strip_formatted [of "pre @ ds" d]
      by (simp add: format_transcription_eq get_chunks_def snoc comp_def)
    from False obtain p ps where "pre = p # ps" by (cases pre) auto
    with F chunk_line_bracket [of p] have nonempty: "?F \<noteq> []" by auto
    have "split_newline ?F = map chunk_line pre @ split_newline ?z"
      unfolding F using free by (rule split_newline_prefix)
    with nonempty have "formatted_lines ?F = map chunk_line pre @ split_newline ?z"
      by (simp add: formatted_lines_def)
    then show ?thesis by simp
  qed
qed

text \<open>
  C10: a leading run of chunks whose texts trim to the empty string leaves the flat
  transcript as it is without them, since the previous text starts as the empty string.
  Each of these chunks still has its own line in the formatted transcript: the first
  lines of the transcript are, in order and up to trailing whitespace, the bare tags of
  these chunks, \<open>[start - end]\<close> or \<open>[No Timestamp]\<close>.
\<close>

theorem leading_blank_chunks_contribute_nothing:
  assumes "list_all blank_chunk pre"
  shows "snd (format_transcription (Some (pre @ cs))) = snd (format_transcription (Some cs)) \<and>
    length pre \<le> length (formatted_lines (fst (format_transcription (Some (pre @ cs))))) \<and>
    map str_rstrip (take (length pre)
        (formatted_lines (fst (format_transcription (Some (pre @ cs)))))) =
      map (\<lambda>c. case chunk_timestamp c of
                  Some (a, b) \<Rightarrow> ''['' @ format_2f a @ '' - '' @ format_2f b @ '']''
                | None \<Rightarrow> ''[No Timestamp]'') pre"
proof -
  from assms have "list_all (\<lambda>t. t = []) (map (\<lambda>c. str_strip (chunk_text c)) pre)"
    by (simp add: list_all_iff blank_chunk_def)
  then have "accepted_texts [] (map (\<lambda>c. str_strip (chunk_text c)) pre @
      map (\<lambda>c. str_strip (chunk_text c)) cs) =
      accepted_texts [] (map (\<lambda>c. str_strip (chunk_text c)) cs)"
    by (rule accepted_texts_skip)
  then have flat: "snd (format_transcription (Some (pre @ cs))) =
      snd (format_transcription (Some cs))"
    by (simp add: format_transcription_eq get_chunks_def)
  from assms have "map (\<lambda>c. str_rstrip (chunk_line c)) pre =
      map (\<lambda>c. case chunk_timestamp c of
                  Some (a, b) \<Rightarrow> ''['' @ format_2f a @ '' - '' @ format_2f b @ '']''
                | None \<Rightarrow> ''[No Timestamp]'') pre"
    by (simp add: list_all_iff blank_chunk_line)
  with flat blank_lines [OF assms, of cs] show ?thesis by simp
qed

theorem leading_blank_chunks_contribute_nothing_witness:
  "list_all blank_chunk
     [\<lparr>chunk_text = '' '', chunk_timestamp = None\<rparr>,
      \<lparr>chunk_text = [], chunk_timestamp = Some (0, 1)\<rparr>] \<and>
   snd (format_transcription
     (Some ([\<lparr>chunk_text = '' '', chunk_timestamp = None\<rparr>,
             \<lparr>chunk_text = [], chunk_timestamp = Some (0, 1)\<rparr>] @ example_chunks))) =
   snd (format_transcription (Some example_chunks)) \<and>
   map str_rstrip (take 2 (formatted_lines (fst (format_transcription
     (Some ([\<lparr>chunk_text = '' '', chunk_timestamp = None\<rparr>,
             \<lparr>chunk_text = [], chunk_timestamp = Some (0, 1)\<rparr>] @ example_chunks)))))) =
   [''[No Timestamp]'', ''[0.00 - 1.00]'']"
proof -
  let ?pre = "[\<lparr>chunk_text = '' '', chunk_timestamp = None\<rparr>,
      \<lparr>chunk_text = [], chunk_timestamp = Some (0, 1)\<rparr>]"
  have h: "list_all blank_chunk ?pre"
    by code_simp
  have tags: "map (\<lambda>c. case chunk_timestamp c of
                  Some (a, b) \<Rightarrow> ''['' @ format_2f a @ '' - '' @ format_2f b @ '']''
                | None \<Rightarrow> ''[No Timestamp]'') ?pre = [''[No Timestamp]'', ''[0.00 - 1.00]'']"
    by code_simp
  have len: "length ?pre = 2" by simp
  note inst = leading_blank_chunks_contribute_nothing [OF h, of example_chunks]
  from conjunct2 [OF conjunct2 [OF inst]] have
    "map str_rstrip (take 2 (formatted_lines (fst (format_transcription
       (Some (?pre @ example_chunks)))))) = [''[No Timestamp]'', ''[0.00 - 1.00]'']"
    unfolding len tags .
  with h conjunct1 [OF inst] show ?thesis by (intro conjI)
qed

section \<open>Temporary files of the pipelines\<close>

lemmas pipeline_defs =
  tab_audio_file_def tab_youtube_def youtube_body_def download_audio_youtube_def
  transcribe_and_show_def os_remove_def create_file_def st_error_def log_event_def

text \<open>
  When every collaborator returns, both tabs remove the files they created.
\<close>

lemma success_path_cleans_up:
  "files (tab_youtube working_env ''https://youtu.be/v'' True empty_world) = {} \<and>
   files (snd (tab_audio_file working_env True True empty_world)) = {}"
  by (auto simp: pipeline_defs working_env_def empty_world_def Let_def split: prod.splits)

text \<open>
  C1: every temporary file of a run is to be deleted on every exit path, also when the
  recogniser raises. The code removes the files as the last step of the success path
  only. With a recogniser that raises, the first tab lets the exception leave
  \<open>main\<close> with the temporary file still there, and the second tab reports the error
  with the downloaded container and the decoded WAV still there; no \<open>Removed\<close> event
  is in either trace.
\<close>

theorem transcriber_failure_leaves_artifacts:
  "tab_audio_file failing_transcriber_env True True empty_world =
     (Raises (OtherException ''corrupt audio''),
      \<lparr>files = {''/tmp/tmpk3x9''},
       events = [Created ''/tmp/tmpk3x9'', Transcribed ''/tmp/tmpk3x9'']\<rparr>)
   \<and> tab_youtube failing_transcriber_env ''https://youtu.be/v'' True empty_world =
      \<lparr>files = {''temp_audio.wav'', ''temp_audio.mp4''},
       events = [Created ''temp_audio.mp4'', Created ''temp_audio.wav'',
                 Transcribed ''temp_audio.wav'', StError ''Error: corrupt audio'']\<rparr>"
  by (simp add: pipeline_defs failing_transcriber_env_def working_env_def empty_world_def Let_def)

text \<open>
  When the download itself raises, the second tab creates no file, does not call the
  recogniser and reports the error.
\<close>

lemma download_failure_leaves_nothing:
  assumes "ydl_download en video_url = Raises ex"
  shows "files (tab_youtube en video_url button w) = files w \<and>
    transcriber_calls (events (tab_youtube en video_url button w)) = transcriber_calls (events w) \<and>
    created_paths (events (tab_youtube en video_url button w)) = created_paths (events w) \<and>
    (video_url \<noteq> [] \<and> button \<longrightarrow>
       (\<exists>msg. events (tab_youtube en video_url button w) = events w @ [StError msg]))"
  using assms
  by (cases ex) (simp_all add: pipeline_defs transcriber_calls_def created_paths_def Let_def)


text \<open>
  C4: a failed acquisition of a remote video is to leave no temporary file. Acquisition
  is the download followed by the decoding; when the download returns and the decoder
  raises, the recogniser is not called and the error is reported, but the downloaded
  container \<open>temp_audio.mp4\<close> stays.
\<close>

theorem decode_failure_leaves_container:
  "tab_youtube failing_decoder_env ''https://youtu.be/v'' True empty_world =
      \<lparr>files = {''temp_audio.mp4''},
       events = [Created ''temp_audio.mp4'', StError ''Error: could not decode'']\<rparr>"
  by (simp add: pipeline_defs failing_decoder_env_def working_env_def empty_world_def Let_def)

section \<open>The paths of the second tab\<close>

lemma created_paths_log_event:
  "created_paths (events (log_event e w)) =
     created_paths (events w) @ (case e of Created p \<Rightarrow> [p] | _ \<Rightarrow> [])"
  by (simp add: log_event_def created_paths_def)

lemma created_paths_create_file:
  "created_paths (events (create_file p w)) = created_paths (events w) @ [p]"
  by (simp add: create_file_def created_paths_log_event)

lemma created_paths_st_error:
  "created_paths (events (st_error m w)) = created_paths (events w)"
  by (simp add: st_error_def created_paths_log_event)

lemma created_paths_transcribe_and_show:
  "transcribe_and_show en p w = (r, w') \<Longrightarrow>
     created_paths (events w') = created_paths (events w)"
  by (auto simp: transcribe_and_show_def Let_def created_paths_log_event
      split: outcome.splits prod.splits)

lemma created_paths_os_remove:
  "os_remove p w = (r, w') \<Longrightarrow> created_paths (events w') = created_paths (events w)"
  by (auto simp: os_remove_def created_paths_log_event split: if_splits)

lemma created_paths_download:
  "download_audio_youtube en url out w = (r, w') \<Longrightarrow>
     (r = Returns (Some out) \<and> ydl_download en url = Returns () \<and>
      created_paths (events w') = created_paths (events w) @ [out]) \<or>
     (r \<noteq> Returns (Some out) \<and> (\<exists>ex. ydl_download en url = Raises ex) \<and>
      created_paths (events w') = created_paths (events w))"
  by (auto simp: download_audio_youtube_def created_paths_create_file created_paths_st_error
      split: outcome.splits exn.splits)

lemma created_paths_after_decoding:
  assumes body: "youtube_body en url w = (r, w')"
    and dl: "ydl_download en url = Returns ()"
    and clip: "audio_file_clip en ''temp_audio.mp4'' = Returns ()"
    and wr: "write_audiofile en ''temp_audio.wav'' = Returns ()"
  shows "created_paths (events w') =
     created_paths (events w) @ [''temp_audio.mp4'', ''temp_audio.wav'']"
proof -
  let ?w1 = "create_file ''temp_audio.mp4'' w"
  obtain r2 w2 where t: "transcribe_and_show en ''temp_audio.wav''
      (create_file ''temp_audio.wav'' ?w1) = (r2, w2)"
    by (cases "transcribe_and_show en ''temp_audio.wav'' (create_file ''temp_audio.wav'' ?w1)")
  have p2: "created_paths (events w2) =
      created_paths (events w) @ [''temp_audio.mp4'', ''temp_audio.wav'']"
    using created_paths_transcribe_and_show [OF t] by (simp add: created_paths_create_file)
  show ?thesis
  proof (cases r2)
    case (Raises ex)
    with body dl clip wr t p2 show ?thesis
      by (simp add: youtube_body_def download_audio_youtube_def)
  next
    case shown: (Returns x)
    obtain r3 w3 where rm1: "os_remove ''temp_audio.mp4'' w2 = (r3, w3)"
      by (cases "os_remove ''temp_audio.mp4'' w2")
    have p3: "created_paths (events w3) =
        created_paths (events w) @ [''temp_audio.mp4'', ''temp_audio.wav'']"
      using created_paths_os_remove [OF rm1] p2 by simp
    show ?thesis
    proof (cases r3)
      case (Raises ex)
      with body dl clip wr t shown rm1 p3 show ?thesis
        by (simp add: youtube_body_def download_audio_youtube_def)
    next
      case (Returns y)
      with body dl clip wr t shown rm1
      have "os_remove ''temp_audio.wav'' w3 = (r, w')"
        by (simp add: youtube_body_def download_audio_youtube_def)
      from created_paths_os_remove [OF this] p3 show ?thesis by simp
    qed
  qed
qed

lemma created_paths_youtube_body:
  assumes body: "youtube_body en url w = (r, w')"
  shows "created_paths (events w') = created_paths (events w) \<or>
     created_paths (events w') = created_paths (events w) @ [''temp_audio.mp4''] \<or>
     created_paths (events w') =
       created_paths (events w) @ [''temp_audio.mp4'', ''temp_audio.wav'']"
proof (cases "ydl_download en url")
  case (Raises ex)
  with body show ?thesis
    by (cases ex)
      (auto simp: youtube_body_def download_audio_youtube_def created_paths_st_error)
next
  case dl: (Returns u)
  show ?thesis
  proof (cases "audio_file_clip en ''temp_audio.mp4''")
    case (Raises ex)
    with body dl show ?thesis
      by (auto simp: youtube_body_def download_audio_youtube_def created_paths_create_file)
  next
    case clip: (Returns v)
    show ?thesis
    proof (cases "write_audiofile en ''temp_audio.wav''")
      case (Raises ex)
      with body dl clip show ?thesis
        by (auto simp: youtube_body_def download_audio_youtube_def created_paths_create_file)
    next
      case (Returns x)
      with created_paths_after_decoding [OF body] dl clip show ?thesis by simp
    qed
  qed
qed

lemma created_paths_tab_youtube:
  assumes "video_url \<noteq> []" and "button" and "youtube_body en video_url w = (r, w')"
  shows "created_paths (events (tab_youtube en video_url button w)) = created_paths (events w')"
  using assms by (cases r) (simp_all add: tab_youtube_def created_paths_st_error)

text \<open>
  Whatever the link, the environment and the state, a run of the second tab creates
  nothing, or \<open>temp_audio.mp4\<close>, or \<open>temp_audio.mp4\<close> and then
  \<open>temp_audio.wav\<close>; and it creates both whenever the download and the decoding
  return.
\<close>

lemma youtube_paths_are_fixed:
  "(created_paths (events (tab_youtube en video_url button w)) = created_paths (events w) \<or>
    created_paths (events (tab_youtube en video_url button w)) =
      created_paths (events w) @ [''temp_audio.mp4''] \<or>
    created_paths (events (tab_youtube en video_url button w)) =
      created_paths (events w) @ [''temp_audio.mp4'', ''temp_audio.wav'']) \<and>
   (video_url \<noteq> [] \<and> button \<and> ydl_download en video_url = Returns () \<and>
    audio_file_clip en ''temp_audio.mp4'' = Returns () \<and>
    write_audiofile en ''temp_audio.wav'' = Returns () \<longrightarrow>
    created_paths (events (tab_youtube en video_url button w)) =
      created_paths (events w) @ [''temp_audio.mp4'', ''temp_audio.wav''])"
proof (cases "video_url \<noteq> [] \<and> button")
  case False
  then show ?thesis by (auto simp: tab_youtube_def)
next
  case True
  obtain r w' where b: "youtube_body en video_url w = (r, w')"
    by (cases "youtube_body en video_url w")
  from True b have same: "created_paths (events (tab_youtube en video_url button w)) =
      created_paths (events w')"
    by (simp add: created_paths_tab_youtube)
  show ?thesis
  proof
    from created_paths_youtube_body [OF b] same
    show "created_paths (events (tab_youtube en video_url button w)) = created_paths (events w) \<or>
      created_paths (events (tab_youtube en video_url button w)) =
        created_paths (events w) @ [''temp_audio.mp4''] \<or>
      created_paths (events (tab_youtube en video_url button w)) =
        created_paths (events w) @ [''temp_audio.mp4'', ''temp_audio.wav'']"
      by simp
    from created_paths_after_decoding [OF b] same
    show "video_url \<noteq> [] \<and> button \<and> ydl_download en video_url = Returns () \<and>
      audio_file_clip en ''temp_audio.mp4'' = Returns () \<and>
      write_audiofile en ''temp_audio.wav'' = Returns () \<longrightarrow>
      created_paths (events (tab_youtube en video_url button w)) =
        created_paths (events w) @ [''temp_audio.mp4'', ''temp_audio.wav'']"
      by auto
  qed
qed

text \<open>
  C5: the names of the downloaded container and of the decoded WAV are to be generated
  per run, so that overlapping runs share no path. The first tab takes its name from
  \<open>tempfile\<close>; the second tab writes to the two fixed names. Two runs on different
  links create the same two paths, and when a second run goes through while a first one
  holds its two files, the clean-up of the first finds \<open>temp_audio.mp4\<close> gone and
  raises.
\<close>

theorem overlapping_runs_share_paths:
  "created_paths (events (tab_youtube working_env ''https://youtu.be/first'' True empty_world)) =
     [''temp_audio.mp4'', ''temp_audio.wav''] \<and>
   created_paths (events (tab_youtube working_env ''https://youtu.be/second'' True empty_world)) =
     [''temp_audio.mp4'', ''temp_audio.wav''] \<and>
   fst (os_remove ''temp_audio.mp4''
     (tab_youtube working_env ''https://youtu.be/second'' True
       (create_file ''temp_audio.wav'' (create_file ''temp_audio.mp4'' empty_world)))) =
     Raises (OtherException ''FileNotFoundError'')"
  by (simp add: pipeline_defs working_env_def empty_world_def created_paths_def Let_def
      split: prod.splits)


end
